theory Spec2Isabelle
  imports Main "HOL-Library.Sublist" "HOL-Library.Multiset"
begin

section \<open>Strings and derived names\<close>

text \<open>
  The derived names look at the single characters of a \<open>str\<close>. There a \<open>str\<close> is the
  list of its Unicode code points, which are natural numbers; \<open>ascii\<close> gives the code
  points of an ASCII literal.
\<close>

definition ascii :: "string \<Rightarrow> nat list" where
  "ascii s = map of_char s"

definition ascii_upper :: "nat \<Rightarrow> bool" where
  "ascii_upper c = (65 \<le> c \<and> c \<le> 90)"

definition ascii_lower :: "nat \<Rightarrow> bool" where
  "ascii_lower c = (97 \<le> c \<and> c \<le> 122)"

definition ascii_digit :: "nat \<Rightarrow> bool" where
  "ascii_digit c = (48 \<le> c \<and> c \<le> 57)"

text \<open>
  \<^verbatim>\<open>s.lower()\<close> works code point by code point. A code point below 128 is lowercased
  as ASCII: \<open>A\<close>..\<open>Z\<close> (65..90) move to \<open>a\<close>..\<open>z\<close>, the others stay. The capital sigma
  U+03A3 becomes the final sigma U+03C2 or the small sigma U+03C3, by a test on the
  characters around it. Every other code point is replaced by its full lowercase mapping
  in the Unicode database, which has one to three code points (U+00C9 gives U+00E9, U+0130
  gives U+0069 U+0307). The database and the final-sigma test belong to the Python runtime,
  not to the script: they are the parameter \<open>ud\<close>.
\<close>

record unicode_data =
  to_lower_full :: "nat \<Rightarrow> nat list"
  final_sigma :: "nat list \<Rightarrow> nat \<Rightarrow> bool"

definition lower_at :: "unicode_data \<Rightarrow> nat list \<Rightarrow> nat \<Rightarrow> nat list" where
  "lower_at ud s i =
     (let c = s ! i
      in if c < 128 then [if ascii_upper c then c + 32 else c]
         else if c = 0x3A3 then [if final_sigma ud s i then 0x3C2 else 0x3C3]
         else to_lower_full ud c)"

text \<open>\<^verbatim>\<open>def str_lower(s): return s.lower()\<close>\<close>

definition str_lower :: "unicode_data \<Rightarrow> nat list \<Rightarrow> nat list" where
  "str_lower ud s = concat (map (lower_at ud s) [0..<length s])"

text \<open>
  \<^verbatim>\<open>re.sub('[...]', repl, s)\<close> with a pattern that is one character class: every
  character of \<open>s\<close> that is in the class is replaced by \<open>repl\<close>, the others are kept.
\<close>

definition re_sub_class :: "'a list \<Rightarrow> 'a list \<Rightarrow> 'a list \<Rightarrow> 'a list" where
  "re_sub_class cls repl s = concat (map (\<lambda>c. if c \<in> set cls then repl else [c]) s)"

text \<open>\<^verbatim>\<open>def hyphenated(s): return re.sub('[ _]', '-', s.lower())\<close>\<close>

definition hyphenated :: "unicode_data \<Rightarrow> nat list \<Rightarrow> nat list" where
  "hyphenated ud s = re_sub_class (ascii '' _'') (ascii ''-'') (str_lower ud s)"

text \<open>\<^verbatim>\<open>def snake_case(s): return re.sub('[ -]', '_', s.lower())\<close>\<close>

definition snake_case :: "unicode_data \<Rightarrow> nat list \<Rightarrow> nat list" where
  "snake_case ud s = re_sub_class (ascii '' -'') (ascii ''_'') (str_lower ud s)"

text \<open>
  Two properties of the Unicode database that the theorems on all strings need. A code
  point is fixed when \<^verbatim>\<open>lower()\<close> leaves it as it is wherever it stands. In the database
  every lowercase mapping consists of fixed code points, and so do the two small sigmas;
  and no lowercase mapping contains a space (32), a hyphen (45) or an underscore (95).
\<close>

definition lower_fixed :: "unicode_data \<Rightarrow> nat \<Rightarrow> bool" where
  "lower_fixed ud d =
     (d \<noteq> 0x3A3 \<and> \<not> ascii_upper d \<and> (128 \<le> d \<longrightarrow> to_lower_full ud d = [d]))"

definition lower_stable :: "unicode_data \<Rightarrow> bool" where
  "lower_stable ud =
     ((\<forall>c. 128 \<le> c \<and> c \<noteq> 0x3A3 \<longrightarrow> list_all (lower_fixed ud) (to_lower_full ud c))
      \<and> lower_fixed ud 0x3C2 \<and> lower_fixed ud 0x3C3)"

definition lower_no_separator :: "unicode_data \<Rightarrow> bool" where
  "lower_no_separator ud =
     (\<forall>c. 128 \<le> c \<and> c \<noteq> 0x3A3 \<longrightarrow>
        32 \<notin> set (to_lower_full ud c) \<and> 45 \<notin> set (to_lower_full ud c)
        \<and> 95 \<notin> set (to_lower_full ud c))"

text \<open>
  A value of the parameter for the examples: the lowercase mapping of the database on the
  code points below 256, on U+0130 and on U+03A3, and the identity on the others; the
  final form of the sigma is never chosen.
\<close>

definition latin_lower :: "nat \<Rightarrow> nat list" where
  "latin_lower c =
     (if (192 \<le> c \<and> c \<le> 214) \<or> (216 \<le> c \<and> c \<le> 222) then [c + 32]
      else if c = 0x130 then [0x69, 0x307]
      else if c = 0x3A3 then [0x3C3]
      else [c])"

definition latin_data :: unicode_data where
  "latin_data = \<lparr>to_lower_full = latin_lower, final_sigma = (\<lambda>s i. False)\<rparr>"

text \<open>Character sets used to state what the derived names are made of.\<close>

definition has_separator :: "nat list \<Rightarrow> bool" where
  "has_separator s = list_ex (\<lambda>c. c = 32 \<or> c = 95 \<or> c = 45) s"

definition name_chars :: "nat list \<Rightarrow> bool" where
  "name_chars s = list_all (\<lambda>c. ascii_upper c \<or> ascii_lower c \<or> ascii_digit c
      \<or> c = 32 \<or> c = 95 \<or> c = 45) s"

definition snake_chars :: "nat list \<Rightarrow> bool" where
  "snake_chars s = list_all (\<lambda>c. ascii_lower c \<or> ascii_digit c \<or> c = 95) s"

definition hyphen_chars :: "nat list \<Rightarrow> bool" where
  "hyphen_chars s = list_all (\<lambda>c. ascii_lower c \<or> ascii_digit c \<or> c = 45) s"

section \<open>Values, errors and the world\<close>

text \<open>
  The options record is an \<open>argparse.Namespace\<close>: attributes are read and written by
  name, and an attribute may be missing or hold \<open>None\<close>. It is modelled as a map from
  attribute names to values. The world also holds what the functions read and write:
  the lines still to be read from standard input, what was written to standard output,
  the files of the working directory and the messages sent to the logger. The resolver,
  the layout and the renderers store, compare and join text without mapping its
  characters; there a \<open>str\<close> is a \<open>string\<close>.
\<close>

record datetime =
  year :: nat
  month :: nat
  day :: nat

datatype pyval = PNone | PStr string | PBool bool | PTime datetime

datatype error = SystemExit int | EOFError | AttributeError
  | JSONDecodeError | KeyError | TypeError

datatype out_event = Printed string | Prompted string

record world =
  opts :: "string \<rightharpoonup> pyval"
  stdin :: "string list"
  stdout :: "out_event list"
  files :: "string \<rightharpoonup> string"
  errlog :: "string list"

text \<open>\<^verbatim>\<open>getattr(opts, name, None)\<close>, \<^verbatim>\<open>getattr(opts, name)\<close> and \<^verbatim>\<open>setattr(opts, name, v)\<close>.\<close>

definition getattr_default :: "world \<Rightarrow> string \<Rightarrow> pyval" where
  "getattr_default w name = (case opts w name of None \<Rightarrow> PNone | Some v \<Rightarrow> v)"

definition getattr :: "world \<Rightarrow> string \<Rightarrow> error + pyval" where
  "getattr w name = (case opts w name of None \<Rightarrow> Inl AttributeError | Some v \<Rightarrow> Inr v)"

definition setattr :: "world \<Rightarrow> string \<Rightarrow> pyval \<Rightarrow> world" where
  "setattr w name v = w\<lparr>opts := (opts w)(name \<mapsto> v)\<rparr>"

text \<open>
  \<^verbatim>\<open>user_input(prompt)\<close> writes the prompt, then reads one line; at the end of the
  input it raises \<open>EOFError\<close>, with the prompt already written.
\<close>

definition user_input :: "string \<Rightarrow> world \<Rightarrow> (error + string) \<times> world" where
  "user_input prompt w =
     (let w' = w\<lparr>stdout := stdout w @ [Prompted prompt]\<rparr>
      in case stdin w' of
           [] \<Rightarrow> (Inl EOFError, w')
         | line # rest \<Rightarrow> (Inr line, w'\<lparr>stdin := rest\<rparr>))"

definition print :: "string \<Rightarrow> world \<Rightarrow> world" where
  "print s w = w\<lparr>stdout := stdout w @ [Printed s]\<rparr>"

text \<open>The world at the start of a run with no option given, no input and no file.\<close>

definition empty_world :: world where
  "empty_world = \<lparr>opts = Map.empty, stdin = [], stdout = [], files = Map.empty, errlog = []\<rparr>"

section \<open>The options resolver\<close>

text \<open>
  \<^verbatim>\<open>
  def require_opt(opts, name, _type=str):
      if getattr(opts, name, None) is None:
          prompt = '{}: '.format(name)
          value = _type(user_input(prompt))
          setattr(opts, name, value)
      return getattr(opts, name)
  \<close>
  The parameter \<open>_type\<close> is \<open>ty\<close> here; like every callable it returns a value or
  raises. Every call in the script leaves it at its default \<open>str\<close>, which is \<open>py_str\<close>.
\<close>

definition py_str :: "string \<Rightarrow> error + pyval" where
  "py_str s = Inr (PStr s)"

definition require_opt_as ::
  "world \<Rightarrow> string \<Rightarrow> (string \<Rightarrow> error + pyval) \<Rightarrow> (error + pyval) \<times> world" where
  "require_opt_as w name ty =
     (if getattr_default w name = PNone then
        (case user_input (name @ '': '') w of
           (Inl e, w') \<Rightarrow> (Inl e, w')
         | (Inr line, w') \<Rightarrow>
             (case ty line of
                Inl e \<Rightarrow> (Inl e, w')
              | Inr value \<Rightarrow>
                  (let w'' = setattr w' name value in (getattr w'' name, w''))))
      else (getattr w name, w))"

definition require_opt :: "world \<Rightarrow> string \<Rightarrow> (error + pyval) \<times> world" where
  "require_opt w name = require_opt_as w name py_str"

text \<open>
  \<^verbatim>\<open>
  def derive_opt(opts, name, derived_from, transform=lambda x: x):
      if getattr(opts, name, None) is None:
          value = require_opt(opts, derived_from)
          setattr(opts, name, transform(value))
      return getattr(opts, name)
  \<close>
  The transform returns a value or raises; the default, the identity, is \<open>Inr\<close>.
\<close>

definition derive_opt ::
  "world \<Rightarrow> string \<Rightarrow> string \<Rightarrow> (pyval \<Rightarrow> error + pyval) \<Rightarrow> (error + pyval) \<times> world" where
  "derive_opt w name derived_from transform =
     (if getattr_default w name = PNone then
        (case require_opt w derived_from of
           (Inl e, w') \<Rightarrow> (Inl e, w')
         | (Inr v, w') \<Rightarrow>
             (case transform v of
                Inl e \<Rightarrow> (Inl e, w')
              | Inr value \<Rightarrow>
                  (let w'' = setattr w' name value in (getattr w'' name, w''))))
      else (getattr w name, w))"

text \<open>
  A run of the script is a sequence of resolver calls, made by the renderers one after the
  other; an exception ends the run.
\<close>

datatype request = Require string | Derive string string "pyval \<Rightarrow> error + pyval"

fun resolve :: "world \<Rightarrow> request \<Rightarrow> (error + pyval) \<times> world" where
  "resolve w (Require name) = require_opt w name"
| "resolve w (Derive name derived_from transform) = derive_opt w name derived_from transform"

fun resolve_all :: "world \<Rightarrow> request list \<Rightarrow> (error + unit) \<times> world" where
  "resolve_all w [] = (Inr (), w)"
| "resolve_all w (r # rs) =
     (case resolve w r of
        (Inl e, w') \<Rightarrow> (Inl e, w')
      | (Inr v, w') \<Rightarrow> resolve_all w' rs)"

fun distinct_source :: "request \<Rightarrow> bool" where
  "distinct_source (Require name) = True"
| "distinct_source (Derive name derived_from transform) = (name \<noteq> derived_from)"

definition prompts_for :: "string \<Rightarrow> world \<Rightarrow> nat" where
  "prompts_for name w = count_list (stdout w) (Prompted (name @ '': ''))"

section \<open>The three-column layout\<close>

text \<open>\<^verbatim>\<open>'{:<20s}'.format(s)\<close>: \<open>s\<close>, filled with spaces on the right up to 20 characters.\<close>

definition ljust :: "nat \<Rightarrow> string \<Rightarrow> string" where
  "ljust n s = s @ replicate (n - length s) (CHR '' '')"

text \<open>The slice \<^verbatim>\<open>lst[a:b]\<close> for \<open>0 \<le> a\<close> and \<open>0 \<le> b\<close>.\<close>

definition slice :: "nat \<Rightarrow> nat \<Rightarrow> 'a list \<Rightarrow> 'a list" where
  "slice a b xs = drop a (take b xs)"

definition head :: "'a list \<Rightarrow> 'a option" where
  "head xs = (case xs of [] \<Rightarrow> None | x # _ \<Rightarrow> Some x)"

text \<open>\<^verbatim>\<open>zip_longest(lst1, lst2, lst3)\<close>: the exhausted lists give \<open>None\<close>.\<close>

fun zip_longest :: "'a list \<Rightarrow> 'a list \<Rightarrow> 'a list \<Rightarrow> ('a option \<times> 'a option \<times> 'a option) list" where
  "zip_longest [] [] [] = []"
| "zip_longest xs ys zs = (head xs, head ys, head zs) # zip_longest (tl xs) (tl ys) (tl zs)"

definition or_empty :: "string option \<Rightarrow> string" where
  "or_empty r = (case r of None \<Rightarrow> [] | Some s \<Rightarrow> s)"

definition format_row :: "string option \<times> string option \<times> string option \<Rightarrow> string" where
  "format_row row =
     (case row of (a, b, c) \<Rightarrow>
        ljust 20 (or_empty a) @ '' '' @ ljust 20 (or_empty b) @ '' '' @ or_empty c)"

text \<open>
  \<^verbatim>\<open>
  def columnize(lst):
      split = int(len(lst) / 3)
      lst1 = lst[0:split]
      lst2 = lst[split:split + split]
      lst3 = lst[split + split:]
      for row in zip_longest(lst1, lst2, lst3):
          yield '{:<20s} {:<20s} {}'.format(
              *(r if r is not None else '' for r in row)
          )
  \<close>
  \<open>column_rows\<close> is the list of the tuples \<open>row\<close>, \<open>columnize\<close> the list of the
  strings the generator yields. \<open>int(len(lst) / 3)\<close> is the integer quotient: Python 2
  divides integers, and the float quotient of Python 3 truncates to the same number for
  every list that fits in memory.
\<close>

definition column_rows :: "string list \<Rightarrow> (string option \<times> string option \<times> string option) list" where
  "column_rows lst =
     (let split = length lst div 3;
          lst1 = slice 0 split lst;
          lst2 = slice split (split + split) lst;
          lst3 = drop (split + split) lst
      in zip_longest lst1 lst2 lst3)"

definition columnize :: "string list \<Rightarrow> string list" where
  "columnize lst = map format_row (column_rows lst)"

text \<open>The entries of a row that are items of the list, not padding.\<close>

definition row_items :: "'a option \<times> 'a option \<times> 'a option \<Rightarrow> 'a list" where
  "row_items row = (case row of (a, b, c) \<Rightarrow> concat (map (case_option [] (\<lambda>x. [x])) [a, b, c]))"

section \<open>The help helper\<close>

definition SUPPORTED_LICENSES :: "string list" where
  "SUPPORTED_LICENSES =
    [''afl-3.0'', ''agpl-3.0'', ''apache-2.0'', ''artistic-2.0'', ''bsd-2-clause'',
     ''bsd-3-clause-clear'', ''bsd-3-clause'', ''bsl-1.0'', ''cc-by-4.0'',
     ''cc-by-sa-4.0'', ''cc0-1.0'', ''ecl-2.0'', ''epl-1.0'', ''epl-2.0'', ''eupl-1.1'',
     ''eupl-1.2'', ''gpl-2.0'', ''gpl-3.0'', ''isc'', ''lgpl-2.1'', ''lgpl-3.0'',
     ''lppl-1.3c'', ''mit'', ''mpl-2.0'', ''ms-pl'', ''ms-rl'', ''ncsa'', ''ofl-1.1'',
     ''osl-3.0'', ''postgresql'', ''unlicense'', ''upl-1.0'', ''wtfpl'', ''zlib'']"

text \<open>
  The argument parser, as far as \<open>display_help\<close> uses it: the text that
  \<^verbatim>\<open>parser.print_help()\<close> prints.
\<close>

record parser =
  help_text :: string

definition print_help :: "parser \<Rightarrow> world \<Rightarrow> world" where
  "print_help p w = print (help_text p) w"

text \<open>
  \<^verbatim>\<open>
  def display_help(parser, help_target):
      if help_target == '':
          parser.print_help()
      elif 'license' in help_target:
          print('Supported licenses:')
          for row in columnize(SUPPORTED_LICENSES):
              print(row)
          print('If no value is provided, MIT license is used.')
      else:
          print('No help available for "{}"'.format(help_target))
      raise SystemExit(0)
  \<close>
\<close>

definition display_help :: "parser \<Rightarrow> string \<Rightarrow> world \<Rightarrow> (error + unit) \<times> world" where
  "display_help p help_target w =
     (let w' =
        (if help_target = [] then print_help p w
         else if sublist ''license'' help_target then
           print ''If no value is provided, MIT license is used.''
             (foldl (\<lambda>u row. print row u) (print ''Supported licenses:'' w)
                (columnize SUPPORTED_LICENSES))
         else print (''No help available for '' @ [CHR 0x22] @ help_target @ [CHR 0x22]) w)
      in (Inl (SystemExit 0), w'))"

section \<open>The license renderer\<close>

text \<open>
  \<^verbatim>\<open>s.replace(old, new)\<close>: the occurrences of \<open>old\<close> are found from left to right, without
  overlap, and each is replaced by \<open>new\<close>. With an empty \<open>old\<close>, \<open>new\<close> is put before
  every character and at the end.
\<close>

fun replace_scan :: "'a list \<Rightarrow> 'a list \<Rightarrow> 'a list \<Rightarrow> 'a list" where
  "replace_scan old new [] = []"
| "replace_scan old new (c # cs) =
     (if old \<noteq> [] \<and> prefix old (c # cs)
      then new @ replace_scan old new (drop (length old) (c # cs))
      else c # replace_scan old new cs)"

definition str_replace :: "string \<Rightarrow> string \<Rightarrow> string \<Rightarrow> string" where
  "str_replace s old new =
     (if old = [] then new @ concat (map (\<lambda>c. c # new) s) else replace_scan old new s)"


definition digit_char :: "nat \<Rightarrow> char" where
  "digit_char d = char_of (48 + d)"

fun decimal :: "nat \<Rightarrow> string" where
  "decimal n = (if n < 10 then [digit_char n] else decimal (n div 10) @ [digit_char (n mod 10)])"

declare decimal.simps [simp del]

definition strftime_Y :: "datetime \<Rightarrow> string" where
  "strftime_Y d = decimal (year d)"


text \<open>
  The answer of the license service: the status code and what \<^verbatim>\<open>json.loads(resp.text)\<close>
  gives, \<open>None\<close> when the body is not JSON and \<open>json.loads\<close> raises. A number is kept as
  its literal.
\<close>

datatype json = JNull | JBool bool | JNum string | JStr string
  | JArr "json list" | JObj "(string \<times> json) list"

record response =
  status_code :: int
  text_json :: "json option"

text \<open>
  \<^verbatim>\<open>data[key]\<close> on a decoded document: a dictionary gives the value of the key, the last
  one when the key is repeated, or raises \<open>KeyError\<close>; any other document raises
  \<open>TypeError\<close> for a string key.
\<close>

definition json_getitem :: "json \<Rightarrow> string \<Rightarrow> error + json" where
  "json_getitem data key =
     (case data of
        JObj kvs \<Rightarrow> (case map_of (rev kvs) key of None \<Rightarrow> Inl KeyError | Some v \<Rightarrow> Inr v)
      | _ \<Rightarrow> Inl TypeError)"

text \<open>
  \<^verbatim>\<open>
  def create_license_md(opts):
      resp = requests.get(
          'https://licenseapi.herokuapp.com/licenses/{}'.format(opts.license)
      )
      if resp.status_code != 200:
          logger.error('Unable to download license text')
          raise SystemExit(1)
      data = json.loads(resp.text)
      text = data['text']
      text = text.replace('[year]', opts.now.strftime('%Y'))
      text = text.replace('[fullname]', opts.author_name)
      with open('LICENSE', 'w') as f:
          f.write(text)
  \<close>
  The request is the one blocking call to the outside: \<open>resp\<close> is what it returned. The
  address is built from \<open>opts.license\<close>, which must be there to be read. A value that is
  not of the type the next step needs raises as Python does: \<open>AttributeError\<close> when it
  has no method \<open>replace\<close> or \<open>strftime\<close>, \<open>TypeError\<close> when \<open>replace\<close> gets an
  argument that is not a string.
\<close>

definition create_license_md :: "response \<Rightarrow> world \<Rightarrow> (error + unit) \<times> world" where
  "create_license_md resp w =
     (case getattr w ''license'' of
        Inl e \<Rightarrow> (Inl e, w)
      | Inr lic \<Rightarrow>
          if status_code resp \<noteq> 200
          then (Inl (SystemExit 1), w\<lparr>errlog := errlog w @ [''Unable to download license text'']\<rparr>)
          else
            (case text_json resp of
               None \<Rightarrow> (Inl JSONDecodeError, w)
             | Some data \<Rightarrow>
                 (case json_getitem data ''text'' of
                    Inl e \<Rightarrow> (Inl e, w)
                  | Inr (JStr text) \<Rightarrow>
                      (case getattr w ''now'' of
                         Inl e \<Rightarrow> (Inl e, w)
                       | Inr (PTime now) \<Rightarrow>
                           (let text1 = str_replace text ''[year]'' (strftime_Y now)
                            in case getattr w ''author_name'' of
                                 Inl e \<Rightarrow> (Inl e, w)
                               | Inr (PStr author) \<Rightarrow>
                                   (let text2 = str_replace text1 ''[fullname]'' author
                                    in (Inr (), w\<lparr>files := (files w)(''LICENSE'' \<mapsto> text2)\<rparr>))
                               | Inr _ \<Rightarrow> (Inl TypeError, w))
                       | Inr _ \<Rightarrow> (Inl AttributeError, w))
                  | Inr _ \<Rightarrow> (Inl AttributeError, w))))"







section \<open>Derived package names\<close>

lemma ascii_separators:
  "ascii '' -'' = [32, 45]" "ascii '' _'' = [32, 95]" "ascii ''_'' = [95]" "ascii ''-'' = [45]"
  by (simp_all add: ascii_def)


lemma re_sub_class_map:
  "re_sub_class cls [r] s = map (\<lambda>c. if c \<in> set cls then r else c) s"
  by (induction s) (simp_all add: re_sub_class_def)

lemma snake_case_sub:
  "snake_case ud s = map (\<lambda>c. if c = 32 \<or> c = 45 then 95 else c) (str_lower ud s)"
  by (simp add: snake_case_def ascii_separators re_sub_class_map)

lemma hyphenated_sub:
  "hyphenated ud s = map (\<lambda>c. if c = 32 \<or> c = 95 then 45 else c) (str_lower ud s)"
  by (simp add: hyphenated_def ascii_separators re_sub_class_map)

lemma concat_singletons: "concat (map (\<lambda>i. [f i]) is) = map f is"
  by (induction "is") simp_all

lemma lower_at_fixed:
  assumes "lower_fixed ud (z ! i)"
  shows "lower_at ud z i = [z ! i]"
  using assms by (simp add: lower_at_def lower_fixed_def Let_def)

lemma str_lower_fixed:
  assumes "list_all (lower_fixed ud) z"
  shows "str_lower ud z = z"
proof -
  have "map (lower_at ud z) [0..<length z] = map (\<lambda>i. [z ! i]) [0..<length z]"
    using assms by (intro map_cong refl lower_at_fixed) (simp add: list_all_length)
  then have "str_lower ud z = concat (map (\<lambda>i. [z ! i]) [0..<length z])"
    unfolding str_lower_def by (rule arg_cong)
  then have "str_lower ud z = map (\<lambda>i. z ! i) [0..<length z]"
    by (simp only: concat_singletons)
  then show ?thesis
    by (simp add: map_nth)
qed

lemma ascii_fixed: "c < 128 \<Longrightarrow> \<not> ascii_upper c \<Longrightarrow> lower_fixed ud c"
  by (simp add: lower_fixed_def)

lemma lower_at_gives_fixed:
  assumes "lower_stable ud" "i < length x"
  shows "list_all (lower_fixed ud) (lower_at ud x i)"
proof -
  consider "x ! i < 128" | "x ! i = 0x3A3" | "128 \<le> x ! i" "x ! i \<noteq> 0x3A3"
    by fastforce
  then show ?thesis
  proof cases
    case 1
    then show ?thesis
      by (simp add: lower_at_def Let_def lower_fixed_def ascii_upper_def)
  next
    case 2
    with assms(1) show ?thesis
      by (simp add: lower_at_def Let_def lower_stable_def)
  next
    case 3
    with assms(1) show ?thesis
      by (simp add: lower_at_def Let_def lower_stable_def)
  qed
qed

lemma str_lower_gives_fixed:
  assumes "lower_stable ud"
  shows "list_all (lower_fixed ud) (str_lower ud x)"
  using lower_at_gives_fixed [OF assms, of _ x]
  by (auto simp: str_lower_def list_all_iff)

lemma fixed_after_sub:
  assumes "list_all (lower_fixed ud) y" "lower_fixed ud r"
  shows "list_all (lower_fixed ud) (map (\<lambda>c. if P c then r else c) y)"
  using assms by (induction y) simp_all

lemma separators_fixed: "lower_fixed ud 95" "lower_fixed ud 45"
  by (simp_all add: lower_fixed_def ascii_upper_def)

lemma lower_of_snake:
  assumes "lower_stable ud"
  shows "str_lower ud (snake_case ud x) = snake_case ud x"
    and "str_lower ud (hyphenated ud x) = hyphenated ud x"
  unfolding snake_case_sub hyphenated_sub
  using str_lower_gives_fixed [OF assms, of x] separators_fixed
  by (intro str_lower_fixed fixed_after_sub; blast)+


lemma lower_at_separator:
  assumes "lower_no_separator ud" "e \<in> set (lower_at ud s i)" "e = 32 \<or> e = 45 \<or> e = 95"
  shows "s ! i = e"
proof -
  consider "s ! i < 128" | "s ! i = 0x3A3" | "128 \<le> s ! i" "s ! i \<noteq> 0x3A3"
    by fastforce
  then show ?thesis
  proof cases
    case 1
    with assms(2,3) show ?thesis
      by (auto simp: lower_at_def Let_def ascii_upper_def split: if_splits)
  next
    case 2
    with assms(2,3) show ?thesis
      by (auto simp: lower_at_def Let_def split: if_splits)
  next
    case 3
    with assms show ?thesis
      by (auto simp: lower_at_def Let_def lower_no_separator_def)
  qed
qed

lemma lower_at_of_separator:
  assumes "c = 32 \<or> c = 45 \<or> c = 95" "s ! i = c"
  shows "lower_at ud s i = [c]"
  using assms by (auto simp: lower_at_def Let_def ascii_upper_def)

lemma sub_lower_at:
  assumes "lower_no_separator ud" "a = 32 \<or> a = 45 \<or> a = 95" "b = 32 \<or> b = 45 \<or> b = 95"
  shows "map (\<lambda>c. if c = a \<or> c = b then r else c) (lower_at ud s i)
       = (if s ! i = a \<or> s ! i = b then [r] else lower_at ud s i)"
proof (cases "s ! i = a \<or> s ! i = b")
  case True
  then have "lower_at ud s i = [s ! i]"
    using assms(2,3) by (intro lower_at_of_separator [of "s ! i"]) auto
  with True show ?thesis
    by simp
next
  case False
  have "\<forall>e \<in> set (lower_at ud s i). \<not> (e = a \<or> e = b)"
  proof
    fix e assume e: "e \<in> set (lower_at ud s i)"
    show "\<not> (e = a \<or> e = b)"
    proof
      assume ab: "e = a \<or> e = b"
      then have "e = 32 \<or> e = 45 \<or> e = 95"
        using assms(2,3) by blast
      then have "s ! i = e"
        by (rule lower_at_separator [OF assms(1) e])
      with ab False show False
        by blast
    qed
  qed
  then have "map (\<lambda>c. if c = a \<or> c = b then r else c) (lower_at ud s i) = lower_at ud s i"
    by (intro map_idI) simp
  with False show ?thesis
    by simp
qed

lemma snake_case_pass:
  assumes "lower_no_separator ud"
  shows "snake_case ud s
       = concat (map (\<lambda>i. if s ! i = 32 \<or> s ! i = 45 then [95] else lower_at ud s i)
           [0..<length s])"
proof -
  have "map (\<lambda>c. if c = 32 \<or> c = 45 then 95 else c) (lower_at ud s i)
      = (if s ! i = 32 \<or> s ! i = 45 then [95] else lower_at ud s i)" for i
    by (rule sub_lower_at [OF assms]) simp_all
  then show ?thesis
    unfolding snake_case_sub str_lower_def map_concat map_map comp_def by (simp only:)
qed

lemma hyphenated_pass:
  assumes "lower_no_separator ud"
  shows "hyphenated ud s
       = concat (map (\<lambda>i. if s ! i = 32 \<or> s ! i = 95 then [45] else lower_at ud s i)
           [0..<length s])"
proof -
  have "map (\<lambda>c. if c = 32 \<or> c = 95 then 45 else c) (lower_at ud s i)
      = (if s ! i = 32 \<or> s ! i = 95 then [45] else lower_at ud s i)" for i
    by (rule sub_lower_at [OF assms]) simp_all
  then show ?thesis
    unfolding hyphenated_sub str_lower_def map_concat map_map comp_def by (simp only:)
qed

lemma no_separator_left:
  "32 \<notin> set (snake_case ud s)" "45 \<notin> set (snake_case ud s)"
  "32 \<notin> set (hyphenated ud s)" "95 \<notin> set (hyphenated ud s)"
  by (auto simp: snake_case_sub hyphenated_sub)

lemma latin_data_stable: "lower_stable latin_data"
  by (auto simp: lower_stable_def lower_fixed_def latin_data_def latin_lower_def ascii_upper_def)

lemma latin_data_no_separator: "lower_no_separator latin_data"
  by (auto simp: lower_no_separator_def latin_data_def latin_lower_def)

lemma my_cool_app:
  "snake_case ud (ascii ''My Cool App'') = ascii ''my_cool_app''"
  "hyphenated ud (ascii ''My Cool App'') = ascii ''my-cool-app''"
  by (simp_all add: snake_case_def hyphenated_def str_lower_def lower_at_def re_sub_class_def
      ascii_def ascii_upper_def upt_rec)

text \<open>
  C4. Both transforms are idempotent: for every string \<open>x\<close>,
  \<open>snake_case (snake_case x) = snake_case x\<close> and
  \<open>hyphenated (hyphenated x) = hyphenated x\<close>, with the lowercase mappings of the Unicode
  database, which consist of fixed code points.
\<close>

theorem derived_names_idempotent:
  assumes "lower_stable ud"
  shows "snake_case ud (snake_case ud x) = snake_case ud x
    \<and> hyphenated ud (hyphenated ud x) = hyphenated ud x"
proof -
  have "snake_case ud (snake_case ud x)
      = map (\<lambda>c. if c = 32 \<or> c = 45 then 95 else c) (snake_case ud x)"
    unfolding snake_case_sub [of ud "snake_case ud x"] lower_of_snake(1) [OF assms] ..
  also have "\<dots> = snake_case ud x"
    unfolding snake_case_sub by simp
  finally have s: "snake_case ud (snake_case ud x) = snake_case ud x" .
  have "hyphenated ud (hyphenated ud x)
      = map (\<lambda>c. if c = 32 \<or> c = 95 then 45 else c) (hyphenated ud x)"
    unfolding hyphenated_sub [of ud "hyphenated ud x"] lower_of_snake(2) [OF assms] ..
  also have "\<dots> = hyphenated ud x"
    unfolding hyphenated_sub by simp
  finally have h: "hyphenated ud (hyphenated ud x) = hyphenated ud x" .
  from s h show ?thesis ..
qed

theorem derived_names_idempotent_witness:
  "lower_stable latin_data
   \<and> snake_case latin_data (snake_case latin_data [0xC9, 45, 0x130, 32, 65]) = [0xE9, 95, 0x69, 0x307, 95, 97]
   \<and> hyphenated latin_data (hyphenated latin_data [0xC9, 95, 0x130, 32, 65]) = [0xE9, 45, 0x69, 0x307, 45, 97]"
proof -
  have h: "lower_stable latin_data"
    by (rule latin_data_stable)
  have "snake_case latin_data [0xC9, 45, 0x130, 32, 65] = [0xE9, 95, 0x69, 0x307, 95, 97]"
    by code_simp
  moreover have "hyphenated latin_data [0xC9, 95, 0x130, 32, 65] = [0xE9, 45, 0x69, 0x307, 45, 97]"
    by code_simp
  ultimately show ?thesis
    using h derived_names_idempotent [OF h, of "[0xC9, 45, 0x130, 32, 65]"]
      derived_names_idempotent [OF h, of "[0xC9, 95, 0x130, 32, 65]"]
    by simp
qed

text \<open>
  C10. For every string \<open>x\<close>, \<open>hyphenated (snake_case x) = hyphenated x\<close> and
  \<open>snake_case (hyphenated x) = snake_case x\<close>: either derived name can be computed from
  the other one, whichever was resolved first.
\<close>

theorem derived_names_commute:
  assumes "lower_stable ud"
  shows "hyphenated ud (snake_case ud x) = hyphenated ud x
    \<and> snake_case ud (hyphenated ud x) = snake_case ud x"
proof -
  have "hyphenated ud (snake_case ud x)
      = map (\<lambda>c. if c = 32 \<or> c = 95 then 45 else c) (snake_case ud x)"
    unfolding hyphenated_sub [of ud "snake_case ud x"] lower_of_snake(1) [OF assms] ..
  also have "\<dots> = hyphenated ud x"
    unfolding snake_case_sub hyphenated_sub by simp
  finally have a: "hyphenated ud (snake_case ud x) = hyphenated ud x" .
  have "snake_case ud (hyphenated ud x)
      = map (\<lambda>c. if c = 32 \<or> c = 45 then 95 else c) (hyphenated ud x)"
    unfolding snake_case_sub [of ud "hyphenated ud x"] lower_of_snake(2) [OF assms] ..
  also have "\<dots> = snake_case ud x"
    unfolding snake_case_sub hyphenated_sub by simp
  finally have b: "snake_case ud (hyphenated ud x) = snake_case ud x" .
  from a b show ?thesis ..
qed

theorem derived_names_commute_witness:
  "lower_stable latin_data
   \<and> hyphenated latin_data (snake_case latin_data [0xC9, 45, 0x130, 95, 65]) = [0xE9, 45, 0x69, 0x307, 45, 97]
   \<and> snake_case latin_data (hyphenated latin_data [0xC9, 45, 0x130, 95, 65]) = [0xE9, 95, 0x69, 0x307, 95, 97]"
proof -
  have h: "lower_stable latin_data"
    by (rule latin_data_stable)
  have "hyphenated latin_data [0xC9, 45, 0x130, 95, 65] = [0xE9, 45, 0x69, 0x307, 45, 97]"
    by code_simp
  moreover have "snake_case latin_data [0xC9, 45, 0x130, 95, 65] = [0xE9, 95, 0x69, 0x307, 95, 97]"
    by code_simp
  ultimately show ?thesis
    using h derived_names_commute [OF h, of "[0xC9, 45, 0x130, 95, 65]"]
    by simp
qed


lemma str_lower_ascii:
  assumes "list_all (\<lambda>c. c < 128) s"
  shows "str_lower ud s = map (\<lambda>c. if ascii_upper c then c + 32 else c) s"
proof -
  have "map (lower_at ud s) [0..<length s]
      = map (\<lambda>i. [if ascii_upper (s ! i) then s ! i + 32 else s ! i]) [0..<length s]"
    using assms by (intro map_cong refl) (simp add: lower_at_def Let_def list_all_length)
  then have "str_lower ud s
      = concat (map (\<lambda>i. [if ascii_upper (s ! i) then s ! i + 32 else s ! i]) [0..<length s])"
    unfolding str_lower_def by (rule arg_cong)
  then have "str_lower ud s
      = map (\<lambda>i. if ascii_upper (s ! i) then s ! i + 32 else s ! i) [0..<length s]"
    by (simp only: concat_singletons)
  also have "\<dots> = map (\<lambda>c. if ascii_upper c then c + 32 else c) (map (\<lambda>i. s ! i) [0..<length s])"
    by (simp only: map_map comp_def)
  finally show ?thesis
    by (simp only: map_nth)
qed

lemma name_chars_ascii: "name_chars s \<Longrightarrow> list_all (\<lambda>c. c < 128) s"
  unfolding name_chars_def
  by (induction s) (auto simp: ascii_upper_def ascii_lower_def ascii_digit_def)

text \<open>
  C3, as the specification states it, asks that for every package name with a space, an
  underscore or a hyphen the snake-case name is made of lowercase letters, digits and
  underscores only (and the hyphenated name of lowercase letters, digits and hyphens only).
  The name \<open>My App!\<close> has a space, and its \<open>!\<close> is kept by both functions.
\<close>

theorem derived_names_alphabet_counterexample:
  "has_separator (ascii ''My App!'')
   \<and> \<not> snake_chars (snake_case latin_data (ascii ''My App!''))
   \<and> \<not> hyphen_chars (hyphenated latin_data (ascii ''My App!''))"
  by code_simp

text \<open>
  C3, amended. For every package name made only of ASCII letters, digits, spaces,
  underscores and hyphens, the snake-case name is made of lowercase letters, digits and
  underscores only, and the hyphenated name of lowercase letters, digits and hyphens only.
\<close>

theorem derived_names_alphabet:
  assumes "name_chars s"
  shows "snake_chars (snake_case ud s) \<and> hyphen_chars (hyphenated ud s)"
proof -
  have low: "str_lower ud s = map (\<lambda>c. if ascii_upper c then c + 32 else c) s"
    using assms by (intro str_lower_ascii name_chars_ascii)
  have "snake_chars (snake_case ud s)"
    using assms unfolding snake_case_sub low name_chars_def snake_chars_def
    by (induction s) (auto simp: ascii_upper_def ascii_lower_def ascii_digit_def)
  moreover have "hyphen_chars (hyphenated ud s)"
    using assms unfolding hyphenated_sub low name_chars_def hyphen_chars_def
    by (induction s) (auto simp: ascii_upper_def ascii_lower_def ascii_digit_def)
  ultimately show ?thesis ..
qed

theorem derived_names_alphabet_witness:
  "name_chars (ascii ''My Cool-App_2'') \<and> has_separator (ascii ''My Cool-App_2'')
   \<and> snake_chars (snake_case latin_data (ascii ''My Cool-App_2''))
   \<and> hyphen_chars (hyphenated latin_data (ascii ''My Cool-App_2''))"
proof -
  have h: "name_chars (ascii ''My Cool-App_2'')"
    by code_simp
  have s: "has_separator (ascii ''My Cool-App_2'')"
    by code_simp
  show ?thesis
    using h s derived_names_alphabet [OF h, of latin_data] by simp
qed


lemma snake_case_ascii:
  assumes "list_all (\<lambda>c. c < 128) s"
  shows "snake_case ud s
       = map (\<lambda>c. if c = 32 \<or> c = 45 then 95 else if 65 \<le> c \<and> c \<le> 90 then c + 32 else c) s"
    and "hyphenated ud s
       = map (\<lambda>c. if c = 32 \<or> c = 95 then 45 else if 65 \<le> c \<and> c \<le> 90 then c + 32 else c) s"
  unfolding snake_case_sub hyphenated_sub str_lower_ascii [OF assms]
  by (simp_all add: ascii_upper_def)

text \<open>
  C1. For every string, \<open>snake_case\<close> lowercases it and puts an underscore for every
  space and hyphen, and \<open>hyphenated\<close> lowercases it and puts a hyphen for every space and
  underscore. No space and no hyphen is left in the snake-case name, no space and no
  underscore in the hyphenated name. Character by character: a separator becomes the
  replacement, an ASCII capital letter the small letter, a capital sigma one of the small
  sigmas, any other character beyond ASCII its lowercase mapping in the Unicode database
  (which contains no separator), and every other ASCII character stays. The package name
  \<open>My Cool App\<close> gives \<open>my_cool_app\<close> and \<open>my-cool-app\<close>.
\<close>

theorem derived_names_replace_and_lowercase:
  "32 \<notin> set (snake_case ud s) \<and> 45 \<notin> set (snake_case ud s)
   \<and> 32 \<notin> set (hyphenated ud s) \<and> 95 \<notin> set (hyphenated ud s)
   \<and> (lower_no_separator ud \<longrightarrow>
        snake_case ud s
          = concat (map (\<lambda>i. if s ! i = 32 \<or> s ! i = 45 then [95]
                else if s ! i < 128 then [if 65 \<le> s ! i \<and> s ! i \<le> 90 then s ! i + 32 else s ! i]
                else if s ! i = 0x3A3 then [if final_sigma ud s i then 0x3C2 else 0x3C3]
                else to_lower_full ud (s ! i)) [0..<length s])
        \<and> hyphenated ud s
          = concat (map (\<lambda>i. if s ! i = 32 \<or> s ! i = 95 then [45]
                else if s ! i < 128 then [if 65 \<le> s ! i \<and> s ! i \<le> 90 then s ! i + 32 else s ! i]
                else if s ! i = 0x3A3 then [if final_sigma ud s i then 0x3C2 else 0x3C3]
                else to_lower_full ud (s ! i)) [0..<length s]))
   \<and> (list_all (\<lambda>c. c < 128) s \<longrightarrow>
        snake_case ud s
          = map (\<lambda>c. if c = 32 \<or> c = 45 then 95 else if 65 \<le> c \<and> c \<le> 90 then c + 32 else c) s
        \<and> hyphenated ud s
          = map (\<lambda>c. if c = 32 \<or> c = 95 then 45 else if 65 \<le> c \<and> c \<le> 90 then c + 32 else c) s)
   \<and> snake_case ud (ascii ''My Cool App'') = ascii ''my_cool_app''
   \<and> hyphenated ud (ascii ''My Cool App'') = ascii ''my-cool-app''"
proof -
  have pass: "snake_case ud s
          = concat (map (\<lambda>i. if s ! i = 32 \<or> s ! i = 45 then [95]
                else if s ! i < 128 then [if 65 \<le> s ! i \<and> s ! i \<le> 90 then s ! i + 32 else s ! i]
                else if s ! i = 0x3A3 then [if final_sigma ud s i then 0x3C2 else 0x3C3]
                else to_lower_full ud (s ! i)) [0..<length s])
        \<and> hyphenated ud s
          = concat (map (\<lambda>i. if s ! i = 32 \<or> s ! i = 95 then [45]
                else if s ! i < 128 then [if 65 \<le> s ! i \<and> s ! i \<le> 90 then s ! i + 32 else s ! i]
                else if s ! i = 0x3A3 then [if final_sigma ud s i then 0x3C2 else 0x3C3]
                else to_lower_full ud (s ! i)) [0..<length s])"
    if "lower_no_separator ud"
  proof -
    have e: "lower_at ud s i
        = (if s ! i < 128 then [if 65 \<le> s ! i \<and> s ! i \<le> 90 then s ! i + 32 else s ! i]
           else if s ! i = 0x3A3 then [if final_sigma ud s i then 0x3C2 else 0x3C3]
           else to_lower_full ud (s ! i))" for i
      by (simp add: lower_at_def Let_def ascii_upper_def)
    show ?thesis
      using snake_case_pass [OF that, of s] hyphenated_pass [OF that, of s]
      unfolding e by blast
  qed
  show ?thesis
    using no_separator_left [of ud s] pass snake_case_ascii [of s ud] my_cool_app [of ud]
    by blast
qed

theorem derived_names_replace_and_lowercase_witness:
  "lower_no_separator latin_data
   \<and> snake_case latin_data [0xC9, 45, 65] = [0xE9, 95, 97]
   \<and> hyphenated latin_data [0xC9, 95, 65] = [0xE9, 45, 97]"
proof -
  let ?s = "[0xC9, 45, 65] :: nat list"
  let ?h = "[0xC9, 95, 65] :: nat list"
  have h: "lower_no_separator latin_data"
    by (rule latin_data_no_separator)
  from derived_names_replace_and_lowercase [of latin_data ?s] h
  have "snake_case latin_data ?s
          = concat (map (\<lambda>i. if ?s ! i = 32 \<or> ?s ! i = 45 then [95]
                else if ?s ! i < 128 then [if 65 \<le> ?s ! i \<and> ?s ! i \<le> 90 then ?s ! i + 32 else ?s ! i]
                else if ?s ! i = 0x3A3 then [if final_sigma latin_data ?s i then 0x3C2 else 0x3C3]
                else to_lower_full latin_data (?s ! i)) [0..<length ?s])"
    by blast
  also have "\<dots> = [0xE9, 95, 97]"
    by code_simp
  finally have a: "snake_case latin_data ?s = [0xE9, 95, 97]" .
  from derived_names_replace_and_lowercase [of latin_data ?h] h
  have "hyphenated latin_data ?h
          = concat (map (\<lambda>i. if ?h ! i = 32 \<or> ?h ! i = 95 then [45]
                else if ?h ! i < 128 then [if 65 \<le> ?h ! i \<and> ?h ! i \<le> 90 then ?h ! i + 32 else ?h ! i]
                else if ?h ! i = 0x3A3 then [if final_sigma latin_data ?h i then 0x3C2 else 0x3C3]
                else to_lower_full latin_data (?h ! i)) [0..<length ?h])"
    by blast
  also have "\<dots> = [0xE9, 45, 97]"
    by code_simp
  finally have b: "hyphenated latin_data ?h = [0xE9, 45, 97]" .
  show ?thesis
    using h a b by blast
qed

section \<open>The three-column layout: proofs\<close>

lemma zip_longest_step:
  "xs \<noteq> [] \<or> ys \<noteq> [] \<or> zs \<noteq> [] \<Longrightarrow>
   zip_longest xs ys zs = (head xs, head ys, head zs) # zip_longest (tl xs) (tl ys) (tl zs)"
  by (cases xs; cases ys; cases zs; simp)

lemma head_nth: "head xs = (if 0 < length xs then Some (xs ! 0) else None)"
  by (cases xs) (simp_all add: head_def)

lemma zip_longest_length:
  "length (zip_longest xs ys zs) = max (length xs) (max (length ys) (length zs))"
  apply (induction xs ys zs rule: zip_longest.induct)
  subgoal by simp
  subgoal for v va ys zs by (cases ys; cases zs; simp)
  subgoal for xs v va zs by (cases xs; cases zs; simp)
  subgoal for xs ys v va by (cases xs; cases ys; simp)
  done

lemma zip_longest_nth:
  "i < length (zip_longest xs ys zs) \<Longrightarrow>
   zip_longest xs ys zs ! i =
     (if i < length xs then Some (xs ! i) else None,
      if i < length ys then Some (ys ! i) else None,
      if i < length zs then Some (zs ! i) else None)"
proof (induction i arbitrary: xs ys zs)
  case 0
  then have "xs \<noteq> [] \<or> ys \<noteq> [] \<or> zs \<noteq> []"
    by auto
  then show ?case
    by (simp add: zip_longest_step head_nth)
next
  case (Suc i)
  then have ne: "xs \<noteq> [] \<or> ys \<noteq> [] \<or> zs \<noteq> []"
    by auto
  with Suc.prems have "i < length (zip_longest (tl xs) (tl ys) (tl zs))"
    by (simp add: zip_longest_step)
  then have "zip_longest (tl xs) (tl ys) (tl zs) ! i =
     (if i < length (tl xs) then Some (tl xs ! i) else None,
      if i < length (tl ys) then Some (tl ys ! i) else None,
      if i < length (tl zs) then Some (tl zs ! i) else None)"
    by (rule Suc.IH)
  moreover have "\<And>us :: 'a list. (if i < length (tl us) then Some (tl us ! i) else None)
      = (if Suc i < length us then Some (us ! Suc i) else None)"
    subgoal for us by (cases us) simp_all
    done
  ultimately show ?case
    using ne by (simp add: zip_longest_step)
qed


lemma mset_zip_longest:
  "mset (concat (map row_items (zip_longest xs ys zs))) = mset xs + mset ys + mset zs"
  apply (induction xs ys zs rule: zip_longest.induct)
  subgoal by simp
  subgoal for v va ys zs by (cases ys; cases zs; simp add: row_items_def head_def)
  subgoal for xs v va zs by (cases xs; cases zs; simp add: row_items_def head_def)
  subgoal for xs ys v va by (cases xs; cases ys; simp add: row_items_def head_def)
  done

lemma slices_cover: "slice 0 k lst @ slice k (k + k) lst @ drop (k + k) lst = lst"
proof -
  have "take k lst = take k (take (k + k) lst)"
    by simp
  then have "take k lst @ drop k (take (k + k) lst) = take (k + k) lst"
    by (metis append_take_drop_id)
  then have "(take k lst @ drop k (take (k + k) lst)) @ drop (k + k) lst = lst"
    by (simp only: append_take_drop_id)
  then show ?thesis
    by (simp add: slice_def)
qed

lemma slices_length:
  assumes "k = length lst div 3"
  shows "length (slice 0 k lst) = k" "length (slice k (k + k) lst) = k"
    "length (drop (k + k) lst) = length lst - 2 * k" "k \<le> length lst - 2 * k"
  using assms by (simp_all add: slice_def)

lemma column_rows_length:
  assumes "k = length lst div 3"
  shows "length (column_rows lst) = length lst - 2 * k"
proof -
  have "column_rows lst = zip_longest (slice 0 k lst) (slice k (k + k) lst) (drop (k + k) lst)"
    using assms by (simp add: column_rows_def Let_def)
  then show ?thesis
    using slices_length [OF assms] by (simp add: zip_longest_length del: length_drop)
qed

lemma column_rows_nth:
  assumes "k = length lst div 3" "i < length lst - 2 * k"
  shows "column_rows lst ! i =
    (if i < k then Some (lst ! i) else None,
     if i < k then Some (lst ! (k + i)) else None,
     Some (lst ! (k + k + i)))"
proof -
  have rows: "column_rows lst = zip_longest (slice 0 k lst) (slice k (k + k) lst) (drop (k + k) lst)"
    using assms(1) by (simp add: column_rows_def Let_def)
  have len: "i < length (column_rows lst)"
    using assms column_rows_length by simp
  have a: "i < k \<Longrightarrow> slice 0 k lst ! i = lst ! i"
    by (simp add: slice_def)
  have b: "i < k \<Longrightarrow> slice k (k + k) lst ! i = lst ! (k + i)"
    using slices_length(2) [OF assms(1)] by (simp add: slice_def)
  have c: "drop (k + k) lst ! i = lst ! (k + k + i)"
    using assms by simp
  have d: "i < length (drop (k + k) lst)"
    using assms by simp
  show ?thesis
    using len a b c d slices_length(1,2) [OF assms(1)]
    unfolding rows by (simp add: zip_longest_nth del: length_drop nth_drop)
qed


lemma license_table:
  "columnize SUPPORTED_LICENSES =
    [''afl-3.0              ecl-2.0              mit'',
     ''agpl-3.0             epl-1.0              mpl-2.0'',
     ''apache-2.0           epl-2.0              ms-pl'',
     ''artistic-2.0         eupl-1.1             ms-rl'',
     ''bsd-2-clause         eupl-1.2             ncsa'',
     ''bsd-3-clause-clear   gpl-2.0              ofl-1.1'',
     ''bsd-3-clause         gpl-3.0              osl-3.0'',
     ''bsl-1.0              isc                  postgresql'',
     ''cc-by-4.0            lgpl-2.1             unlicense'',
     ''cc-by-sa-4.0         lgpl-3.0             upl-1.0'',
     ''cc0-1.0              lppl-1.3c            wtfpl'',
     ''                                          zlib'']"
  by code_simp

text \<open>
  C6. For a list of \<open>N\<close> items and \<open>k = N div 3\<close>, \<open>columnize\<close> cuts the list at the
  indices \<open>k\<close> and \<open>2k\<close> into three consecutive slices, the first two of length \<open>k\<close>.
  The items of the rows, as a multiset, are exactly the items of the list: nothing is lost
  and nothing is duplicated. There are \<open>N - 2k\<close> rows; row \<open>i < k\<close> holds the items
  \<open>i\<close>, \<open>k + i\<close> and \<open>2k + i\<close>, the first two filled with spaces up to 20 characters;
  a later row holds the empty string, so 20 spaces, in its first two columns and the item
  \<open>2k + i\<close> in the third.
\<close>

theorem columnize_layout:
  assumes "k = length lst div 3"
  shows "slice 0 k lst @ slice k (k + k) lst @ drop (k + k) lst = lst
    \<and> length (slice 0 k lst) = k \<and> length (slice k (k + k) lst) = k
    \<and> mset (concat (map row_items (column_rows lst))) = mset lst
    \<and> length (columnize lst) = length lst - 2 * k
    \<and> (\<forall>i. i < k \<longrightarrow> columnize lst ! i =
          lst ! i @ replicate (20 - length (lst ! i)) (CHR '' '') @ '' ''
          @ lst ! (k + i) @ replicate (20 - length (lst ! (k + i))) (CHR '' '') @ '' ''
          @ lst ! (k + k + i))
    \<and> (\<forall>i. k \<le> i \<and> i < length lst - 2 * k \<longrightarrow> columnize lst ! i =
          replicate 20 (CHR '' '') @ '' '' @ replicate 20 (CHR '' '') @ '' ''
          @ lst ! (k + k + i))"
proof -
  have rows: "column_rows lst = zip_longest (slice 0 k lst) (slice k (k + k) lst) (drop (k + k) lst)"
    using assms by (simp add: column_rows_def Let_def)
  have items: "mset (concat (map row_items (column_rows lst))) = mset lst"
  proof -
    have "mset (concat (map row_items (column_rows lst)))
        = mset (slice 0 k lst @ slice k (k + k) lst @ drop (k + k) lst)"
      unfolding rows mset_zip_longest by simp
    then show ?thesis
      by (simp only: slices_cover)
  qed
  have len: "length (columnize lst) = length lst - 2 * k"
    using column_rows_length [OF assms] by (simp add: columnize_def)
  have full: "columnize lst ! i =
          lst ! i @ replicate (20 - length (lst ! i)) (CHR '' '') @ '' ''
          @ lst ! (k + i) @ replicate (20 - length (lst ! (k + i))) (CHR '' '') @ '' ''
          @ lst ! (k + k + i)" if "i < k" for i
  proof -
    have i: "i < length lst - 2 * k"
      using that slices_length(4) [OF assms] by simp
    then have "columnize lst ! i = format_row (column_rows lst ! i)"
      using column_rows_length [OF assms] by (simp add: columnize_def)
    then show ?thesis
      using that by (simp add: column_rows_nth [OF assms i] format_row_def or_empty_def ljust_def)
  qed
  have last: "columnize lst ! i =
          replicate 20 (CHR '' '') @ '' '' @ replicate 20 (CHR '' '') @ '' ''
          @ lst ! (k + k + i)" if "k \<le> i" "i < length lst - 2 * k" for i
  proof -
    have "columnize lst ! i = format_row (column_rows lst ! i)"
      using that column_rows_length [OF assms] by (simp add: columnize_def)
    then show ?thesis
      using that by (simp add: column_rows_nth [OF assms that(2)] format_row_def or_empty_def ljust_def)
  qed
  show ?thesis
    using slices_cover [of k lst] slices_length(1,2) [OF assms] items len full last
    by blast
qed


theorem columnize_layout_witness:
  "(1::nat) = length [''a'', ''b'', ''c'', ''d'', ''e''] div 3
   \<and> length (columnize [''a'', ''b'', ''c'', ''d'', ''e'']) = 3
   \<and> columnize [''a'', ''b'', ''c'', ''d'', ''e''] ! 0
       = ''a                    b                    c''
   \<and> columnize [''a'', ''b'', ''c'', ''d'', ''e''] ! 2
       = ''                                          e''"
proof -
  let ?l = "[''a'', ''b'', ''c'', ''d'', ''e'']"
  have k: "(1::nat) = length ?l div 3"
    by simp
  note t = columnize_layout [OF k]
  from t have "length (columnize ?l) = length ?l - 2 * 1"
    by blast
  then have len: "length (columnize ?l) = 3"
    by simp
  from t have "(0::nat) < 1 \<longrightarrow> columnize ?l ! 0 =
          ?l ! 0 @ replicate (20 - length (?l ! 0)) (CHR '' '') @ '' ''
          @ ?l ! (1 + 0) @ replicate (20 - length (?l ! (1 + 0))) (CHR '' '') @ '' ''
          @ ?l ! (1 + 1 + 0)"
    by blast
  then have "columnize ?l ! 0 =
          ?l ! 0 @ replicate (20 - length (?l ! 0)) (CHR '' '') @ '' ''
          @ ?l ! (1 + 0) @ replicate (20 - length (?l ! (1 + 0))) (CHR '' '') @ '' ''
          @ ?l ! (1 + 1 + 0)"
    by (simp only: zero_less_one simp_thms)
  also have "\<dots> = ''a                    b                    c''"
    by code_simp
  finally have first: "columnize ?l ! 0 = ''a                    b                    c''" .
  from t have "(1::nat) \<le> 2 \<and> (2::nat) < length ?l - 2 * 1 \<longrightarrow> columnize ?l ! 2 =
          replicate 20 (CHR '' '') @ '' '' @ replicate 20 (CHR '' '') @ '' ''
          @ ?l ! (1 + 1 + 2)"
    by blast
  moreover have "(1::nat) \<le> 2 \<and> (2::nat) < length ?l - 2 * 1"
    by simp
  ultimately have "columnize ?l ! 2 =
          replicate 20 (CHR '' '') @ '' '' @ replicate 20 (CHR '' '') @ '' ''
          @ ?l ! (1 + 1 + 2)"
    by (rule mp)
  also have "\<dots> = ''                                          e''"
    by code_simp
  finally have last: "columnize ?l ! 2 = ''                                          e''" .
  show ?thesis
    using k len first last by blast
qed


section \<open>The help helper: proofs\<close>

lemma print_rows:
  "foldl (\<lambda>u row. print row u) w rows = w\<lparr>stdout := stdout w @ map Printed rows\<rparr>"
  by (induction rows arbitrary: w) (simp_all add: print_def)

text \<open>
  C9. For every help topic, \<open>display_help\<close> ends by raising \<open>SystemExit(0)\<close>, never
  another exit code. Before that it prints the usage text for the empty topic; for a topic
  that contains \<open>license\<close> the heading, the twelve rows of the three-column license table
  and the note on the default license; for any other topic the no-help message. The
  files, the options and the input are left as they were.
\<close>

theorem display_help_exits_zero:
  "fst (display_help p t w) = Inl (SystemExit 0)
   \<and> files (snd (display_help p t w)) = files w
   \<and> opts (snd (display_help p t w)) = opts w
   \<and> stdin (snd (display_help p t w)) = stdin w
   \<and> errlog (snd (display_help p t w)) = errlog w
   \<and> stdout (snd (display_help p t w)) = stdout w @
       (if t = [] then [Printed (help_text p)]
        else if sublist ''license'' t then
          [Printed ''Supported licenses:''] @ map Printed (columnize SUPPORTED_LICENSES)
          @ [Printed ''If no value is provided, MIT license is used.'']
        else [Printed (''No help available for '' @ [CHR 0x22] @ t @ [CHR 0x22])])
   \<and> columnize SUPPORTED_LICENSES =
      [''afl-3.0              ecl-2.0              mit'',
       ''agpl-3.0             epl-1.0              mpl-2.0'',
       ''apache-2.0           epl-2.0              ms-pl'',
       ''artistic-2.0         eupl-1.1             ms-rl'',
       ''bsd-2-clause         eupl-1.2             ncsa'',
       ''bsd-3-clause-clear   gpl-2.0              ofl-1.1'',
       ''bsd-3-clause         gpl-3.0              osl-3.0'',
       ''bsl-1.0              isc                  postgresql'',
       ''cc-by-4.0            lgpl-2.1             unlicense'',
       ''cc-by-sa-4.0         lgpl-3.0             upl-1.0'',
       ''cc0-1.0              lppl-1.3c            wtfpl'',
       ''                                          zlib'']"
proof -
  have "fst (display_help p t w) = Inl (SystemExit 0)
   \<and> files (snd (display_help p t w)) = files w
   \<and> opts (snd (display_help p t w)) = opts w
   \<and> stdin (snd (display_help p t w)) = stdin w
   \<and> errlog (snd (display_help p t w)) = errlog w
   \<and> stdout (snd (display_help p t w)) = stdout w @
       (if t = [] then [Printed (help_text p)]
        else if sublist ''license'' t then
          [Printed ''Supported licenses:''] @ map Printed (columnize SUPPORTED_LICENSES)
          @ [Printed ''If no value is provided, MIT license is used.'']
        else [Printed (''No help available for '' @ [CHR 0x22] @ t @ [CHR 0x22])])"
    unfolding display_help_def Let_def print_help_def print_rows
    by (simp add: print_def)
  then show ?thesis
    using license_table by blast
qed

theorem display_help_exits_zero_witness:
  "fst (display_help \<lparr>help_text = ''usage''\<rparr> ''license'' empty_world) = Inl (SystemExit 0)
   \<and> files (snd (display_help \<lparr>help_text = ''usage''\<rparr> ''license'' empty_world)) = Map.empty
   \<and> length (stdout (snd (display_help \<lparr>help_text = ''usage''\<rparr> ''license'' empty_world))) = 14"
proof -
  have s: "sublist ''license'' ''license''"
    by simp
  have n: "length (columnize SUPPORTED_LICENSES) = 12"
    by (simp add: license_table)
  note t = display_help_exits_zero [of "\<lparr>help_text = ''usage''\<rparr>" "''license''" empty_world]
  from t have "fst (display_help \<lparr>help_text = ''usage''\<rparr> ''license'' empty_world) = Inl (SystemExit 0)"
    by blast
  moreover from t have "files (snd (display_help \<lparr>help_text = ''usage''\<rparr> ''license'' empty_world))
      = files empty_world"
    by blast
  moreover from t have "stdout (snd (display_help \<lparr>help_text = ''usage''\<rparr> ''license'' empty_world))
      = stdout empty_world @
       (if ''license'' = [] then [Printed (help_text \<lparr>help_text = ''usage''\<rparr>)]
        else if sublist ''license'' ''license'' then
          [Printed ''Supported licenses:''] @ map Printed (columnize SUPPORTED_LICENSES)
          @ [Printed ''If no value is provided, MIT license is used.'']
        else [Printed (''No help available for '' @ [CHR 0x22] @ ''license'' @ [CHR 0x22])])"
    by blast
  ultimately show ?thesis
    using s n by (simp add: empty_world_def)
qed

section \<open>The options resolver: proofs\<close>

lemma require_opt_hit:
  assumes "opts w name = Some v" "v \<noteq> PNone"
  shows "require_opt_as w name ty = (Inr v, w)"
  using assms by (simp add: require_opt_as_def getattr_default_def getattr_def)

lemma derive_opt_hit:
  assumes "opts w name = Some v" "v \<noteq> PNone"
  shows "derive_opt w name src t = (Inr v, w)"
  using assms by (simp add: derive_opt_def getattr_default_def getattr_def)

lemma unset_or_set:
  "getattr_default w name = PNone \<or> (\<exists>v. opts w name = Some v \<and> v \<noteq> PNone)"
  by (cases "opts w name") (simp_all add: getattr_default_def)

lemma require_opt_miss:
  assumes "getattr_default w name = PNone"
  shows "require_opt w name =
    (case stdin w of
       [] \<Rightarrow> (Inl EOFError, w\<lparr>stdout := stdout w @ [Prompted (name @ '': '')]\<rparr>)
     | line # rest \<Rightarrow>
         (Inr (PStr line),
          w\<lparr>opts := (opts w)(name \<mapsto> PStr line), stdin := rest,
            stdout := stdout w @ [Prompted (name @ '': '')]\<rparr>))"
  using assms
  by (simp add: require_opt_def require_opt_as_def user_input_def py_str_def setattr_def
      getattr_def Let_def split: list.splits)

lemma derive_opt_miss:
  assumes "getattr_default w name = PNone"
  shows "derive_opt w name src t =
    (case require_opt w src of
       (Inl e, w') \<Rightarrow> (Inl e, w')
     | (Inr v, w') \<Rightarrow>
         (case t v of
            Inl e \<Rightarrow> (Inl e, w')
          | Inr x \<Rightarrow> (Inr x, w'\<lparr>opts := (opts w')(name \<mapsto> x)\<rparr>)))"
  using assms
  by (simp add: derive_opt_def setattr_def getattr_def Let_def split: prod.splits sum.splits)


lemma require_opt_other:
  assumes "n \<noteq> name"
  shows "prompts_for name (snd (require_opt w n)) = prompts_for name w"
proof (cases "getattr_default w n = PNone")
  case True
  then show ?thesis
    using assms by (simp add: require_opt_miss prompts_for_def split: list.splits)
next
  case False
  then obtain v where "opts w n = Some v" "v \<noteq> PNone"
    using unset_or_set by blast
  then show ?thesis
    by (simp add: require_opt_def require_opt_hit)
qed

lemma require_opt_at_most_one:
  "prompts_for name (snd (require_opt w n)) \<le> prompts_for name w + 1"
proof (cases "getattr_default w n = PNone")
  case True
  then show ?thesis
    by (simp add: require_opt_miss prompts_for_def split: list.splits)
next
  case False
  then obtain v where "opts w n = Some v" "v \<noteq> PNone"
    using unset_or_set by blast
  then show ?thesis
    by (simp add: require_opt_def require_opt_hit)
qed

lemma require_opt_sets:
  assumes "require_opt w n = (Inr x, w')"
  shows "opts w' n = Some x \<and> x \<noteq> PNone"
proof (cases "getattr_default w n = PNone")
  case True
  then show ?thesis
    using assms by (auto simp: require_opt_miss split: list.splits)
next
  case False
  then obtain v where "opts w n = Some v" "v \<noteq> PNone"
    using unset_or_set by blast
  then show ?thesis
    using assms by (simp add: require_opt_def require_opt_hit)
qed

lemma require_opt_keeps:
  assumes "opts w name = Some v" "v \<noteq> PNone"
  shows "opts (snd (require_opt w n)) name = Some v
    \<and> prompts_for name (snd (require_opt w n)) = prompts_for name w"
proof (cases "getattr_default w n = PNone")
  case True
  with assms have "n \<noteq> name"
    by (auto simp: getattr_default_def)
  with True assms show ?thesis
    by (simp add: require_opt_miss prompts_for_def split: list.splits)
next
  case False
  then obtain u where "opts w n = Some u" "u \<noteq> PNone"
    using unset_or_set by blast
  then show ?thesis
    using assms by (simp add: require_opt_def require_opt_hit)
qed

lemma derive_opt_keeps:
  assumes "opts w name = Some v" "v \<noteq> PNone"
  shows "opts (snd (derive_opt w n src t)) name = Some v
    \<and> prompts_for name (snd (derive_opt w n src t)) = prompts_for name w"
proof (cases "getattr_default w n = PNone")
  case True
  with assms have "n \<noteq> name"
    by (auto simp: getattr_default_def)
  with True require_opt_keeps [OF assms, of src] show ?thesis
    by (auto simp: derive_opt_miss prompts_for_def split: prod.splits sum.splits)
next
  case False
  then obtain u where "opts w n = Some u" "u \<noteq> PNone"
    using unset_or_set by blast
  then show ?thesis
    using assms by (simp add: derive_opt_hit)
qed

lemma resolve_keeps:
  assumes "opts w name = Some v" "v \<noteq> PNone"
  shows "opts (snd (resolve w r)) name = Some v
    \<and> prompts_for name (snd (resolve w r)) = prompts_for name w"
  using require_opt_keeps [OF assms] derive_opt_keeps [OF assms] by (cases r) simp_all

lemma resolve_all_keeps:
  assumes "opts w name = Some v" "v \<noteq> PNone"
  shows "opts (snd (resolve_all w rs)) name = Some v
    \<and> prompts_for name (snd (resolve_all w rs)) = prompts_for name w"
  using assms
proof (induction rs arbitrary: w)
  case Nil
  then show ?case by simp
next
  case (Cons r rs)
  obtain res w' where step: "resolve w r = (res, w')"
    by (cases "resolve w r")
  have kept: "opts w' name = Some v \<and> prompts_for name w' = prompts_for name w"
    using resolve_keeps [OF Cons.prems, of r] step by simp
  show ?case
  proof (cases res)
    case (Inl e)
    with step kept show ?thesis by simp
  next
    case (Inr x)
    with step have "resolve_all w (r # rs) = resolve_all w' rs"
      by simp
    with kept Cons.IH [of w'] Cons.prems(2) show ?thesis
      by simp
  qed
qed


lemma require_opt_once:
  assumes "require_opt w n = (Inr x, w')"
  shows "prompts_for name w' = prompts_for name w \<or> (\<exists>v. opts w' name = Some v \<and> v \<noteq> PNone)"
proof (cases "n = name")
  case True
  with require_opt_sets [OF assms] show ?thesis by blast
next
  case False
  with require_opt_other [of n name w] assms show ?thesis by simp
qed

lemma derive_opt_at_most_one:
  "prompts_for name (snd (derive_opt w n src t)) \<le> prompts_for name w + 1"
proof (cases "getattr_default w n = PNone")
  case True
  then show ?thesis
    using require_opt_at_most_one [of name w src]
    by (auto simp: derive_opt_miss prompts_for_def split: prod.splits sum.splits)
next
  case False
  then obtain u where "opts w n = Some u" "u \<noteq> PNone"
    using unset_or_set by blast
  then show ?thesis
    by (simp add: derive_opt_hit)
qed

lemma derive_opt_once:
  assumes "derive_opt w n src t = (Inr x, w')" "n \<noteq> src"
  shows "prompts_for name w' = prompts_for name w \<or> (\<exists>v. opts w' name = Some v \<and> v \<noteq> PNone)"
proof (cases "getattr_default w n = PNone")
  case True
  obtain r1 w1 where req: "require_opt w src = (r1, w1)"
    by (cases "require_opt w src")
  with True assms(1) obtain v y where r1: "r1 = Inr v" and tv: "t v = Inr y"
    and w': "w' = w1\<lparr>opts := (opts w1)(n \<mapsto> y)\<rparr>"
    by (auto simp: derive_opt_miss split: sum.splits)
  have same: "prompts_for name w' = prompts_for name w1"
    using w' by (simp add: prompts_for_def)
  show ?thesis
  proof (cases "n = name")
    case True
    with assms(2) have "src \<noteq> name" by simp
    then have "prompts_for name w1 = prompts_for name w"
      using require_opt_other [of src name w] req by simp
    with same show ?thesis by simp
  next
    case False
    then have "opts w' name = opts w1 name"
      using w' by simp
    with require_opt_once [of w src v w1 name] req r1 same show ?thesis
      by auto
  qed
next
  case False
  then obtain u where "opts w n = Some u" "u \<noteq> PNone"
    using unset_or_set by blast
  then show ?thesis
    using assms by (simp add: derive_opt_hit)
qed

lemma resolve_at_most_one:
  "prompts_for name (snd (resolve w r)) \<le> prompts_for name w + 1"
  using require_opt_at_most_one derive_opt_at_most_one by (cases r) simp_all

lemma resolve_once:
  assumes "resolve w r = (Inr x, w')" "distinct_source r"
  shows "prompts_for name w' = prompts_for name w \<or> (\<exists>v. opts w' name = Some v \<and> v \<noteq> PNone)"
  using assms require_opt_once derive_opt_once by (cases r) simp_all

lemma resolve_all_at_most_one:
  assumes "list_all distinct_source rs"
  shows "prompts_for name (snd (resolve_all w rs)) \<le> prompts_for name w + 1"
  using assms
proof (induction rs arbitrary: w)
  case Nil
  then show ?case by simp
next
  case (Cons r rs)
  obtain res w' where step: "resolve w r = (res, w')"
    by (cases "resolve w r")
  have le: "prompts_for name w' \<le> prompts_for name w + 1"
    using resolve_at_most_one [of name w r] step by simp
  show ?case
  proof (cases res)
    case (Inl e)
    with step le show ?thesis by simp
  next
    case (Inr x)
    with step have run: "resolve_all w (r # rs) = resolve_all w' rs"
      by simp
    from Cons.prems have ds: "distinct_source r" "list_all distinct_source rs"
      by simp_all
    from resolve_once [of w r x w' name] step Inr ds(1)
    consider "prompts_for name w' = prompts_for name w"
      | v where "opts w' name = Some v" "v \<noteq> PNone"
      by blast
    then show ?thesis
    proof cases
      case 1
      with Cons.IH [OF ds(2), of w'] run show ?thesis by simp
    next
      case 2
      then have "prompts_for name (snd (resolve_all w' rs)) = prompts_for name w'"
        using resolve_all_keeps by blast
      with le run show ?thesis by simp
    qed
  qed
qed


lemma derive_opt_sets:
  assumes "derive_opt w name src t = (Inr x, w')"
  shows "opts w' name = Some x"
proof (cases "getattr_default w name = PNone")
  case True
  then show ?thesis
    using assms by (auto simp: derive_opt_miss split: prod.splits sum.splits)
next
  case False
  then obtain u where "opts w name = Some u" "u \<noteq> PNone"
    using unset_or_set by blast
  then show ?thesis
    using assms by (simp add: derive_opt_hit)
qed

text \<open>
  C2. Once a field holds a value other than \<open>None\<close>, a call of \<open>require_opt\<close> or
  \<open>derive_opt\<close> for that field returns this value and leaves the world as it was: no
  prompt, no input read, no write to the options, whatever the source field and the
  transform are. This stays so after any sequence of further resolver calls, for this or
  for other fields: the value is never overwritten and no prompt for the field is written
  again. A call that returns has set the field to the value it returns, so a second call
  for the field returns the same value and changes nothing; for \<open>require_opt\<close> always,
  since it never returns \<open>None\<close>, for \<open>derive_opt\<close> when the transform did not give
  \<open>None\<close>. In a run whose \<open>derive_opt\<close> calls derive a field from another field, as
  all calls of the script do, each field is prompted for at most once.
\<close>

theorem resolver_memoizes:
  "(opts w name = Some v \<and> v \<noteq> PNone \<longrightarrow>
      require_opt_as w name ty = (Inr v, w)
    \<and> derive_opt w name src t = (Inr v, w)
    \<and> opts (snd (resolve_all w rs)) name = Some v
    \<and> prompts_for name (snd (resolve_all w rs)) = prompts_for name w
    \<and> require_opt_as (snd (resolve_all w rs)) name ty = (Inr v, snd (resolve_all w rs))
    \<and> derive_opt (snd (resolve_all w rs)) name src t = (Inr v, snd (resolve_all w rs)))
   \<and> (require_opt w name = (Inr x, w1) \<longrightarrow>
        opts w1 name = Some x \<and> x \<noteq> PNone
        \<and> require_opt w1 name = (Inr x, w1) \<and> derive_opt w1 name src t = (Inr x, w1))
   \<and> (derive_opt w name src t = (Inr y, w2) \<longrightarrow>
        opts w2 name = Some y
        \<and> (y \<noteq> PNone \<longrightarrow>
             derive_opt w2 name src2 t2 = (Inr y, w2) \<and> require_opt w2 name = (Inr y, w2)))
   \<and> (list_all distinct_source rs \<longrightarrow>
        prompts_for name (snd (resolve_all w rs)) \<le> prompts_for name w + 1)"
proof -
  have cached: "require_opt_as w name ty = (Inr v, w)
    \<and> derive_opt w name src t = (Inr v, w)
    \<and> opts (snd (resolve_all w rs)) name = Some v
    \<and> prompts_for name (snd (resolve_all w rs)) = prompts_for name w
    \<and> require_opt_as (snd (resolve_all w rs)) name ty = (Inr v, snd (resolve_all w rs))
    \<and> derive_opt (snd (resolve_all w rs)) name src t = (Inr v, snd (resolve_all w rs))"
    if set: "opts w name = Some v" "v \<noteq> PNone"
  proof -
    have later: "opts (snd (resolve_all w rs)) name = Some v"
      using resolve_all_keeps [OF set] by blast
    show ?thesis
      using require_opt_hit [OF set] derive_opt_hit [OF set] resolve_all_keeps [OF set]
        require_opt_hit [OF later set(2)] derive_opt_hit [OF later set(2)]
      by blast
  qed
  have required: "opts w1 name = Some x \<and> x \<noteq> PNone
        \<and> require_opt w1 name = (Inr x, w1) \<and> derive_opt w1 name src t = (Inr x, w1)"
    if "require_opt w name = (Inr x, w1)"
  proof -
    have s: "opts w1 name = Some x" "x \<noteq> PNone"
      using require_opt_sets [OF that] by simp_all
    show ?thesis
      using s require_opt_hit [OF s] derive_opt_hit [OF s] by (simp add: require_opt_def)
  qed
  have derived: "opts w2 name = Some y
        \<and> (y \<noteq> PNone \<longrightarrow>
             derive_opt w2 name src2 t2 = (Inr y, w2) \<and> require_opt w2 name = (Inr y, w2))"
    if "derive_opt w name src t = (Inr y, w2)"
  proof -
    have s: "opts w2 name = Some y"
      using derive_opt_sets [OF that] .
    show ?thesis
      using s require_opt_hit [OF s] derive_opt_hit [OF s] by (simp add: require_opt_def)
  qed
  show ?thesis
    using cached required derived resolve_all_at_most_one [of rs name w]
    by blast
qed

theorem resolver_memoizes_witness:
  "opts (empty_world\<lparr>opts := [''package'' \<mapsto> PStr ''My Cool App'']\<rparr>) ''package''
      = Some (PStr ''My Cool App'')
   \<and> PStr ''My Cool App'' \<noteq> PNone
   \<and> list_all distinct_source [Derive ''title'' ''package'' Inr, Require ''package'']
   \<and> require_opt (empty_world\<lparr>opts := [''package'' \<mapsto> PStr ''My Cool App'']\<rparr>) ''package''
      = (Inr (PStr ''My Cool App''), empty_world\<lparr>opts := [''package'' \<mapsto> PStr ''My Cool App'']\<rparr>)
   \<and> opts (snd (resolve_all (empty_world\<lparr>opts := [''package'' \<mapsto> PStr ''My Cool App'']\<rparr>)
        [Derive ''title'' ''package'' Inr, Require ''package'']))
        ''package'' = Some (PStr ''My Cool App'')
   \<and> prompts_for ''package''
        (snd (resolve_all (empty_world\<lparr>opts := [''package'' \<mapsto> PStr ''My Cool App'']\<rparr>)
        [Derive ''title'' ''package'' Inr, Require ''package''])) = 0
   \<and> derive_opt (empty_world\<lparr>stdin := [''My Cool App'', ''Other'']\<rparr>) ''title'' ''package'' Inr
      = (Inr (PStr ''My Cool App''),
         empty_world\<lparr>opts := [''package'' \<mapsto> PStr ''My Cool App'',
                                ''title'' \<mapsto> PStr ''My Cool App''],
                      stdin := [''Other''], stdout := [Prompted ''package: '']\<rparr>)
   \<and> derive_opt (empty_world\<lparr>opts := [''package'' \<mapsto> PStr ''My Cool App'',
                                ''title'' \<mapsto> PStr ''My Cool App''],
                      stdin := [''Other''], stdout := [Prompted ''package: '']\<rparr>)
        ''title'' ''package'' Inr
      = (Inr (PStr ''My Cool App''),
         empty_world\<lparr>opts := [''package'' \<mapsto> PStr ''My Cool App'',
                                ''title'' \<mapsto> PStr ''My Cool App''],
                      stdin := [''Other''], stdout := [Prompted ''package: '']\<rparr>)"
proof -
  let ?w = "empty_world\<lparr>opts := [''package'' \<mapsto> PStr ''My Cool App'']\<rparr>"
  let ?rs = "[Derive ''title'' ''package'' Inr, Require ''package'']"
  let ?u = "empty_world\<lparr>stdin := [''My Cool App'', ''Other'']\<rparr>"
  let ?u2 = "empty_world\<lparr>opts := [''package'' \<mapsto> PStr ''My Cool App'',
                                ''title'' \<mapsto> PStr ''My Cool App''],
                      stdin := [''Other''], stdout := [Prompted ''package: '']\<rparr>"
  have h1: "opts ?w ''package'' = Some (PStr ''My Cool App'')"
    by simp
  have h2: "PStr ''My Cool App'' \<noteq> PNone"
    by simp
  have h3: "list_all distinct_source ?rs"
    by simp
  have p0: "prompts_for ''package'' ?w = 0"
    by (simp add: prompts_for_def empty_world_def)
  note t = resolver_memoizes [where w = ?w and name = "''package''"
      and v = "PStr ''My Cool App''" and rs = ?rs and ty = py_str]
  from t h1 h2 have "require_opt_as ?w ''package'' py_str = (Inr (PStr ''My Cool App''), ?w)"
    by blast
  moreover from t h1 h2 have "opts (snd (resolve_all ?w ?rs)) ''package'' = Some (PStr ''My Cool App'')"
    by blast
  moreover from t h1 h2 have "prompts_for ''package'' (snd (resolve_all ?w ?rs)) = prompts_for ''package'' ?w"
    by blast
  ultimately have set: "require_opt ?w ''package'' = (Inr (PStr ''My Cool App''), ?w)
    \<and> opts (snd (resolve_all ?w ?rs)) ''package'' = Some (PStr ''My Cool App'')
    \<and> prompts_for ''package'' (snd (resolve_all ?w ?rs)) = 0"
    using p0 by (simp add: require_opt_def)
  have first: "derive_opt ?u ''title'' ''package'' Inr = (Inr (PStr ''My Cool App''), ?u2)"
    by (simp add: derive_opt_miss require_opt_miss getattr_default_def empty_world_def)
  note t2 = resolver_memoizes [where w = ?u and name = "''title''"
      and src = "''package''" and t = Inr and y = "PStr ''My Cool App''"
      and ?w2.0 = ?u2 and ?src2.0 = "''package''" and ?t2.0 = Inr]
  from t2 first have again: "derive_opt ?u2 ''title'' ''package'' Inr
      = (Inr (PStr ''My Cool App''), ?u2)"
    by blast
  show ?thesis
    using h1 h2 h3 set first again by blast
qed

text \<open>
  C5. When the field \<open>name\<close> is unset, \<open>derive_opt\<close> first resolves the source field
  with \<open>require_opt\<close>, then stores the transform of the source value under \<open>name\<close> and
  returns it. If the source field is set, nothing is prompted; if it is unset, one
  prompt for the source field is written and one line is read, which becomes the source
  value. When \<open>name\<close> is set, its value is returned and the world, the source field
  included, is left as it was. In every case the value returned is the value stored
  under \<open>name\<close>.
\<close>

theorem derive_opt_resolves_source:
  "(getattr_default w name = PNone \<longrightarrow>
      derive_opt w name src t =
        (case require_opt w src of
           (Inl e, w') \<Rightarrow> (Inl e, w')
         | (Inr v, w') \<Rightarrow>
             (case t v of
                Inl e \<Rightarrow> (Inl e, w')
              | Inr x \<Rightarrow> (Inr x, w'\<lparr>opts := (opts w')(name \<mapsto> x)\<rparr>))))
   \<and> (getattr_default w name = PNone \<and> opts w src = Some v \<and> v \<noteq> PNone \<and> t v = Inr x \<longrightarrow>
      derive_opt w name src t = (Inr x, w\<lparr>opts := (opts w)(name \<mapsto> x)\<rparr>))
   \<and> (getattr_default w name = PNone \<and> getattr_default w src = PNone
        \<and> stdin w = line # rest \<and> t (PStr line) = Inr y \<longrightarrow>
      derive_opt w name src t =
        (Inr y, w\<lparr>opts := (opts w)(src \<mapsto> PStr line, name \<mapsto> y), stdin := rest,
                  stdout := stdout w @ [Prompted (src @ '': '')]\<rparr>))
   \<and> (opts w name = Some z \<and> z \<noteq> PNone \<longrightarrow> derive_opt w name src t = (Inr z, w))
   \<and> (derive_opt w name src t = (Inr r, u) \<longrightarrow> opts u name = Some r)"
proof -
  have a: "derive_opt w name src t = (Inr x, w\<lparr>opts := (opts w)(name \<mapsto> x)\<rparr>)"
    if "getattr_default w name = PNone" "opts w src = Some v" "v \<noteq> PNone" "t v = Inr x"
    using that by (simp add: derive_opt_miss require_opt_def require_opt_hit)
  have b: "derive_opt w name src t =
        (Inr y, w\<lparr>opts := (opts w)(src \<mapsto> PStr line, name \<mapsto> y), stdin := rest,
                  stdout := stdout w @ [Prompted (src @ '': '')]\<rparr>)"
    if "getattr_default w name = PNone" "getattr_default w src = PNone"
      "stdin w = line # rest" "t (PStr line) = Inr y"
    using that by (simp add: derive_opt_miss require_opt_miss)
  show ?thesis
    using a b derive_opt_miss [of w name src t] derive_opt_hit [of w name z src t]
      derive_opt_sets [of w name src t r u]
    by blast
qed

theorem derive_opt_resolves_source_witness:
  "getattr_default (empty_world\<lparr>stdin := [''My Cool App'']\<rparr>) ''title'' = PNone
   \<and> getattr_default (empty_world\<lparr>stdin := [''My Cool App'']\<rparr>) ''package'' = PNone
   \<and> stdin (empty_world\<lparr>stdin := [''My Cool App'']\<rparr>) = [''My Cool App'']
   \<and> derive_opt (empty_world\<lparr>stdin := [''My Cool App'']\<rparr>) ''title'' ''package'' Inr
      = (Inr (PStr ''My Cool App''),
         empty_world\<lparr>opts := [''package'' \<mapsto> PStr ''My Cool App'',
                                ''title'' \<mapsto> PStr ''My Cool App''],
                      stdin := [], stdout := [Prompted ''package: '']\<rparr>)"
proof -
  let ?w = "empty_world\<lparr>stdin := [''My Cool App'']\<rparr>"
  have h1: "getattr_default ?w ''title'' = PNone"
    by (simp add: getattr_default_def empty_world_def)
  have h2: "getattr_default ?w ''package'' = PNone"
    by (simp add: getattr_default_def empty_world_def)
  have h3: "stdin ?w = [''My Cool App'']"
    by simp
  have h4: "(Inr (PStr ''My Cool App'') :: error + pyval) = Inr (PStr ''My Cool App'')"
    by (rule refl)
  note t = derive_opt_resolves_source [where w = ?w and name = "''title''"
      and src = "''package''" and t = Inr and line = "''My Cool App''"
      and rest = "[]" and y = "PStr ''My Cool App''"]
  from t h1 h2 h3 h4 have "derive_opt ?w ''title'' ''package'' Inr =
        (Inr (PStr ''My Cool App''),
         ?w\<lparr>opts := (opts ?w)(''package'' \<mapsto> PStr ''My Cool App'',
                                ''title'' \<mapsto> PStr ''My Cool App''),
             stdin := [], stdout := stdout ?w @ [Prompted (''package'' @ '': '')]\<rparr>)"
    by blast
  then show ?thesis
    using h1 h2 h3 by (simp add: empty_world_def)
qed

section \<open>The license renderer: proofs\<close>

text \<open>
  C8. For every response of the license service whose status is not 200, and so for every
  status that is not a success, such as 404, \<open>create_license_md\<close> raises
  \<open>SystemExit(1)\<close>. The error is logged and nothing else changes: no file is written,
  the files are as they were.
\<close>

theorem create_license_md_fetch_failure:
  assumes "opts w ''license'' = Some lic" "status_code resp \<noteq> 200"
  shows "create_license_md resp w =
      (Inl (SystemExit 1), w\<lparr>errlog := errlog w @ [''Unable to download license text'']\<rparr>)
    \<and> files (snd (create_license_md resp w)) = files w
    \<and> (snd (create_license_md resp w))\<lparr>errlog := errlog w\<rparr> = w"
  using assms by (simp add: create_license_md_def getattr_def)

theorem create_license_md_fetch_failure_witness:
  "opts (empty_world\<lparr>opts := [''license'' \<mapsto> PStr ''mit'']\<rparr>) ''license'' = Some (PStr ''mit'')
   \<and> status_code \<lparr>status_code = 404, text_json = None\<rparr> \<noteq> 200
   \<and> fst (create_license_md \<lparr>status_code = 404, text_json = None\<rparr>
        (empty_world\<lparr>opts := [''license'' \<mapsto> PStr ''mit'']\<rparr>)) = Inl (SystemExit 1)
   \<and> files (snd (create_license_md \<lparr>status_code = 404, text_json = None\<rparr>
        (empty_world\<lparr>opts := [''license'' \<mapsto> PStr ''mit'']\<rparr>))) ''LICENSE'' = None"
proof -
  let ?w = "empty_world\<lparr>opts := [''license'' \<mapsto> PStr ''mit'']\<rparr>"
  let ?r = "\<lparr>status_code = 404, text_json = None\<rparr>"
  have h1: "opts ?w ''license'' = Some (PStr ''mit'')"
    by simp
  have h2: "status_code ?r \<noteq> 200"
    by simp
  show ?thesis
    using h1 h2 create_license_md_fetch_failure [OF h1 h2] by (simp add: empty_world_def)
qed












































end
